theory Spec2Isabelle
  imports Main
begin

section \<open>JavaScript values\<close>

text \<open>
  The values that reach the core are the results of \<^verbatim>\<open>JSON.parse\<close> (the request
  body) and the objects the handlers build from them. An object is the list of its own
  properties in insertion order. Numbers are modelled as integers: the only test the
  core applies to a number is the zero test of truthiness. \<open>JUndefined\<close> is the
  result of reading a property that an object does not have.
\<close>

datatype jsval =
    JUndefined
  | JNull
  | JBool bool
  | JNum int
  | JStr string
  | JArr "jsval list"
  | JObj "(string \<times> jsval) list"

datatype exn = TypeError | TransportError

text \<open>JavaScript's \<^verbatim>\<open>ToBoolean\<close>: what \<^verbatim>\<open>!x\<close> and \<^verbatim>\<open>x && ...\<close> test.\<close>

fun truthy :: "jsval \<Rightarrow> bool" where
  "truthy JUndefined = False"
| "truthy JNull = False"
| "truthy (JBool b) = b"
| "truthy (JNum n) = (n \<noteq> 0)"
| "truthy (JStr s) = (s \<noteq> [])"
| "truthy (JArr xs) = True"
| "truthy (JObj kvs) = True"

text \<open>\<^verbatim>\<open>Array.isArray\<close>.\<close>

fun isArray :: "jsval \<Rightarrow> bool" where
  "isArray (JArr xs) = True"
| "isArray v = False"

text \<open>
  The value of a named property \<^verbatim>\<open>v.k\<close> of a value other than \<^verbatim>\<open>undefined\<close>
  and \<^verbatim>\<open>null\<close>, for the property names the handlers use (\<^verbatim>\<open>timestamp\<close>,
  \<^verbatim>\<open>harmonic\<close>, \<^verbatim>\<open>volt\<close>, \<^verbatim>\<open>current\<close>, \<^verbatim>\<open>power\<close>, \<^verbatim>\<open>events\<close>): an object
  gives its own property or \<^verbatim>\<open>undefined\<close>, every other value gives \<^verbatim>\<open>undefined\<close>.
\<close>

fun own_prop :: "jsval \<Rightarrow> string \<Rightarrow> jsval" where
  "own_prop (JObj kvs) k = (case map_of kvs k of None \<Rightarrow> JUndefined | Some v \<Rightarrow> v)"
| "own_prop v k = JUndefined"

text \<open>Reading the property: on \<^verbatim>\<open>undefined\<close> and \<^verbatim>\<open>null\<close> it throws a TypeError.\<close>

definition get_prop :: "jsval \<Rightarrow> string \<Rightarrow> exn + jsval" where
  "get_prop v k = (if v = JUndefined \<or> v = JNull then Inl TypeError else Inr (own_prop v k))"

text \<open>Sequencing of computations that may throw.\<close>

definition bindE :: "exn + 'a \<Rightarrow> ('a \<Rightarrow> exn + 'b) \<Rightarrow> exn + 'b" where
  "bindE m f = (case m of Inl e \<Rightarrow> Inl e | Inr x \<Rightarrow> f x)"

section \<open>The JavaScript \<^verbatim>\<open>Map\<close>\<close>

text \<open>
  A \<^verbatim>\<open>Map\<close> is the list of its entries in insertion order. \<^verbatim>\<open>set\<close> replaces the
  value of a key that is present, in place, and appends a new key; \<^verbatim>\<open>delete\<close>
  removes the entry of the key; \<^verbatim>\<open>get\<close> is \<^const>\<open>map_of\<close>.
\<close>

fun map_set :: "'k \<Rightarrow> 'v \<Rightarrow> ('k \<times> 'v) list \<Rightarrow> ('k \<times> 'v) list" where
  "map_set k v [] = [(k, v)]"
| "map_set k v ((k', v') # m) = (if k' = k then (k, v) # m else (k', v') # map_set k v m)"

fun map_delete :: "'k \<Rightarrow> ('k \<times> 'v) list \<Rightarrow> ('k \<times> 'v) list" where
  "map_delete k [] = []"
| "map_delete k ((k', v') # m) = (if k' = k then m else (k', v') # map_delete k m)"

text \<open>\<^verbatim>\<open>Set.prototype.add\<close> on a set kept as the list of its members in insertion order.\<close>

definition set_add :: "'a \<Rightarrow> 'a list \<Rightarrow> 'a list" where
  "set_add x xs = (if x \<in> set xs then xs else xs @ [x])"

section \<open>The connection registry (\<^verbatim>\<open>connectedClients\<close>)\<close>

datatype ready_state = CONNECTING | OPEN | CLOSING | CLOSED

text \<open>
  The transport handle is an object of the \<^verbatim>\<open>ws\<close> library. The core reads its
  \<^verbatim>\<open>readyState\<close> and calls \<^verbatim>\<open>send\<close>, \<^verbatim>\<open>ping\<close> and \<^verbatim>\<open>terminate\<close>, each inside
  a \<^verbatim>\<open>try\<close>; whether such a call throws is decided by the transport, and is a field
  of the model of the handle.
\<close>

record websocket =
  readyState :: ready_state
  sendThrows :: bool
  pingThrows :: bool
  terminateThrows :: bool

record clientInfo =
  ws :: websocket
  connectedAt :: int
  lastPing :: int
  isAlive :: bool

type_synonym registry = "(string \<times> clientInfo) list"

text \<open>What the core does to the outside: the calls on transports, the serialisations,
  and the errors it logs in its \<^verbatim>\<open>catch\<close> blocks.\<close>

datatype effect =
    Stringify jsval
  | Send string string
  | Ping string
  | Terminate string
  | ConsoleError string

definition ws_send :: "websocket \<Rightarrow> string \<Rightarrow> exn + unit" where
  "ws_send w message = (if sendThrows w then Inl TransportError else Inr ())"

definition ws_ping :: "websocket \<Rightarrow> exn + unit" where
  "ws_ping w = (if pingThrows w then Inl TransportError else Inr ())"

definition ws_terminate :: "websocket \<Rightarrow> exn + unit" where
  "ws_terminate w = (if terminateThrows w then Inl TransportError else Inr ())"

text \<open>
  \<^verbatim>\<open>wss.on('connection')\<close>: the id is
  \<^verbatim>\<open>Math.random().toString(36).substring(7)\<close>, so the string the random generator
  yields is an input of the handler, as are the two readings of the clock.
\<close>

definition connection :: "string \<Rightarrow> websocket \<Rightarrow> int \<Rightarrow> int \<Rightarrow> registry \<Rightarrow> registry" where
  "connection clientId w now1 now2 connectedClients =
     map_set clientId \<lparr>ws = w, connectedAt = now1, lastPing = now2, isAlive = True\<rparr>
       connectedClients"

text \<open>\<^verbatim>\<open>ws.on('pong')\<close> of the connection with id \<open>clientId\<close>.\<close>

definition pong :: "string \<Rightarrow> int \<Rightarrow> registry \<Rightarrow> registry" where
  "pong clientId now connectedClients =
     (case map_of connectedClients clientId of
        None \<Rightarrow> connectedClients
      | Some client \<Rightarrow>
          map_set clientId (client\<lparr>isAlive := True, lastPing := now\<rparr>) connectedClients)"

text \<open>\<^verbatim>\<open>cleanupClient\<close>: the new registry and the effects of the call.\<close>

definition cleanupClient :: "string \<Rightarrow> registry \<Rightarrow> registry \<times> effect list" where
  "cleanupClient clientId connectedClients =
     (case map_of connectedClients clientId of
        None \<Rightarrow> (connectedClients, [])
      | Some client \<Rightarrow>
          (map_delete clientId connectedClients,
           Terminate clientId #
             (case ws_terminate (ws client) of
                Inl err \<Rightarrow> [ConsoleError clientId]
              | Inr u \<Rightarrow> [])))"

section \<open>The liveness sweep (\<^verbatim>\<open>pingInterval\<close>)\<close>

text \<open>
  The callback of \<^verbatim>\<open>connectedClients.forEach\<close> in the sweep, on one entry. The
  \<^verbatim>\<open>forEach\<close> of a \<^verbatim>\<open>Map\<close> walks the live map: an entry that was deleted before
  its turn is not visited.
\<close>

definition sweep_visit :: "string \<Rightarrow> registry \<times> effect list \<Rightarrow> registry \<times> effect list" where
  "sweep_visit clientId st =
     (case map_of (fst st) clientId of
        None \<Rightarrow> st
      | Some client \<Rightarrow>
          if \<not> isAlive client then
            (let (m, fx) = cleanupClient clientId (fst st) in (m, snd st @ fx))
          else
            (let m = map_set clientId (client\<lparr>isAlive := False\<rparr>) (fst st) in
             case ws_ping (ws client) of
               Inr u \<Rightarrow> (m, snd st @ [Ping clientId])
             | Inl err \<Rightarrow>
                 (let (m', fx) = cleanupClient clientId m
                  in (m', snd st @ [Ping clientId, ConsoleError clientId] @ fx))))"

definition pingInterval :: "registry \<Rightarrow> registry \<times> effect list" where
  "pingInterval connectedClients =
     fold sweep_visit (map fst connectedClients) (connectedClients, [])"

section \<open>The broadcast (\<^verbatim>\<open>broadcastData\<close>)\<close>

text \<open>The callback of the \<^verbatim>\<open>forEach\<close> in \<^verbatim>\<open>broadcastData\<close>: the set of failed
  clients and the effects so far.\<close>

definition broadcast_visit ::
  "string \<Rightarrow> string \<times> clientInfo \<Rightarrow> string list \<times> effect list \<Rightarrow> string list \<times> effect list" where
  "broadcast_visit message entry acc =
     (let clientId = fst entry; client = snd entry; failedClients = fst acc; fx = snd acc in
      if readyState (ws client) = OPEN then
        (case ws_send (ws client) message of
           Inr u \<Rightarrow> (failedClients, fx @ [Send clientId message])
         | Inl err \<Rightarrow>
             (set_add clientId failedClients,
              fx @ [Send clientId message, ConsoleError clientId]))
      else (set_add clientId failedClients, fx))"

definition cleanup_visit :: "string \<Rightarrow> registry \<times> effect list \<Rightarrow> registry \<times> effect list" where
  "cleanup_visit clientId st =
     (let (m, fx) = cleanupClient clientId (fst st) in (m, snd st @ fx))"

text \<open>\<^verbatim>\<open>JSON.stringify\<close> is the parameter \<open>stringify\<close>.\<close>

definition broadcastData ::
  "(jsval \<Rightarrow> string) \<Rightarrow> jsval \<Rightarrow> registry \<Rightarrow> registry \<times> effect list" where
  "broadcastData stringify data connectedClients =
     (if length connectedClients = 0 then (connectedClients, [])
      else
        (let message = stringify data;
             acc = fold (broadcast_visit message) connectedClients ([], [Stringify data])
         in fold cleanup_visit (fst acc) (connectedClients, snd acc)))"

section \<open>The sample store (\<^verbatim>\<open>DataBuffer\<close>)\<close>

text \<open>
  The one field of the buffer, \<^verbatim>\<open>latestData\<close>, is \<^verbatim>\<open>null\<close> or the stored object.
  \<^verbatim>\<open>push\<close> is only ever called on the object literal that the ingest handler
  builds, so its argument is the property list of an object; the spread copies the
  properties and \<^verbatim>\<open>storedAt\<close> is set after them.
\<close>

definition push :: "int \<Rightarrow> (string \<times> jsval) list \<Rightarrow> jsval" where
  "push now data = JObj (map_set ''storedAt'' (JNum now) data)"

definition getLatest :: "jsval \<Rightarrow> jsval list" where
  "getLatest latestData = (if truthy latestData then [latestData] else [])"

definition clear :: jsval where
  "clear = JNull"

section \<open>The HTTP handlers\<close>

record response =
  status :: nat
  body :: jsval

text \<open>
  The state of the process that the core owns: the registry, the buffer, and the
  callbacks handed to \<^verbatim>\<open>setImmediate\<close> that have not run yet (each is a call of
  \<^verbatim>\<open>broadcastData\<close> on the recorded sample).
\<close>

record server =
  clients :: registry
  latestData :: jsval
  immediates :: "jsval list"

definition res_json :: "jsval \<Rightarrow> response" where
  "res_json v = \<lparr>status = 200, body = v\<rparr>"

definition invalid_data_format :: response where
  "invalid_data_format = \<lparr>status = 400, body = JObj [(''error'', JStr ''Invalid data format'')]\<rparr>"

definition internal_server_error :: response where
  "internal_server_error =
     \<lparr>status = 500, body = JObj [(''error'', JStr ''Internal server error'')]\<rparr>"

definition arrayOrEmpty :: "jsval \<Rightarrow> jsval" where
  "arrayOrEmpty v = (if isArray v then v else JArr [])"

text \<open>The object literal \<^verbatim>\<open>storedData\<close> of \<^verbatim>\<open>app.post('/api/data')\<close>, as its
  property list.\<close>

definition storedData :: "int \<Rightarrow> jsval \<Rightarrow> exn + (string \<times> jsval) list" where
  "storedData now data =
     bindE (get_prop data ''timestamp'') (\<lambda>timestamp.
     bindE (get_prop data ''volt'') (\<lambda>volt.
     bindE (get_prop data ''current'') (\<lambda>current.
     bindE (get_prop data ''power'') (\<lambda>power.
     bindE (get_prop data ''harmonic'') (\<lambda>harmonic.
     bindE (get_prop data ''events'') (\<lambda>events.
       Inr [(''timestamp'', timestamp),
            (''volt'', arrayOrEmpty volt),
            (''current'', arrayOrEmpty current),
            (''power'', arrayOrEmpty power),
            (''harmonic'', harmonic),
            (''events'', arrayOrEmpty events),
            (''receivedAt'', JNum now)]))))))"

text \<open>
  The body of the \<^verbatim>\<open>try\<close> of \<^verbatim>\<open>app.post('/api/data')\<close>: the response or the
  exception thrown, and the state at that point. \<open>now1\<close> and \<open>now2\<close> are the readings
  of the clock for \<^verbatim>\<open>receivedAt\<close> and \<^verbatim>\<open>storedAt\<close>.
\<close>

definition post_api_data_try ::
  "int \<Rightarrow> int \<Rightarrow> jsval \<Rightarrow> server \<Rightarrow> (exn + response) \<times> server" where
  "post_api_data_try now1 now2 data s =
     (if \<not> truthy data then (Inr invalid_data_format, s)
      else
        (case get_prop data ''timestamp'' of
           Inl e \<Rightarrow> (Inl e, s)
         | Inr t \<Rightarrow>
             (if \<not> truthy t then (Inr invalid_data_format, s)
              else
                (case get_prop data ''harmonic'' of
                   Inl e \<Rightarrow> (Inl e, s)
                 | Inr h \<Rightarrow>
                     (if \<not> isArray h then (Inr invalid_data_format, s)
                      else
                        (case storedData now1 data of
                           Inl e \<Rightarrow> (Inl e, s)
                         | Inr stored \<Rightarrow>
                             (let s1 = s\<lparr>latestData := push now2 stored\<rparr>;
                                  s2 = s1\<lparr>immediates := immediates s1 @ [JObj stored]\<rparr>
                              in (case get_prop data ''timestamp'' of
                                    Inl e \<Rightarrow> (Inl e, s2)
                                  | Inr t' \<Rightarrow>
                                      (Inr (res_json (JObj
                                         [(''status'', JStr ''success''),
                                          (''timestamp'', t'),
                                          (''clientCount'',
                                             JNum (int (length (clients s2))))])),
                                       s2)))))))))"

definition post_api_data :: "int \<Rightarrow> int \<Rightarrow> jsval \<Rightarrow> server \<Rightarrow> response \<times> server" where
  "post_api_data now1 now2 data s =
     (case post_api_data_try now1 now2 data s of
        (Inr r, s') \<Rightarrow> (r, s')
      | (Inl error, s') \<Rightarrow> (internal_server_error, s'))"

text \<open>The callback given to \<^verbatim>\<open>setImmediate\<close>, run on the oldest pending sample.\<close>

definition run_immediate :: "(jsval \<Rightarrow> string) \<Rightarrow> server \<Rightarrow> server \<times> effect list" where
  "run_immediate stringify s =
     (case immediates s of
        [] \<Rightarrow> (s, [])
      | d # ds \<Rightarrow>
          (let (m, fx) = broadcastData stringify d (clients s)
           in (s\<lparr>clients := m, immediates := ds\<rparr>, fx)))"

text \<open>\<^verbatim>\<open>filter\<close> and \<^verbatim>\<open>map\<close> with a callback that may throw.\<close>

fun filterE :: "('a \<Rightarrow> exn + bool) \<Rightarrow> 'a list \<Rightarrow> exn + 'a list" where
  "filterE p [] = Inr []"
| "filterE p (x # xs) =
     bindE (p x) (\<lambda>b. bindE (filterE p xs) (\<lambda>ys. Inr (if b then x # ys else ys)))"

fun mapE :: "('a \<Rightarrow> exn + 'b) \<Rightarrow> 'a list \<Rightarrow> exn + 'b list" where
  "mapE f [] = Inr []"
| "mapE f (x # xs) = bindE (f x) (\<lambda>y. bindE (mapE f xs) (\<lambda>ys. Inr (y # ys)))"

text \<open>The filter callback of \<^verbatim>\<open>app.get('/api/data')\<close>; \<^verbatim>\<open>&&\<close> stops at the first
  falsy operand.\<close>

definition valid_item :: "jsval \<Rightarrow> exn + bool" where
  "valid_item item =
     (if \<not> truthy item then Inr False
      else bindE (get_prop item ''timestamp'') (\<lambda>t.
        if \<not> truthy t then Inr False
        else bindE (get_prop item ''harmonic'') (\<lambda>h.
          case h of JArr xs \<Rightarrow> Inr (length xs > 0) | _ \<Rightarrow> Inr False)))"

text \<open>The \<^verbatim>\<open>catch\<close> of the three projection handlers.\<close>

definition catch500 :: "exn + response \<Rightarrow> response" where
  "catch500 r = (case r of Inr x \<Rightarrow> x | Inl error \<Rightarrow> internal_server_error)"

text \<open>
  The \<^verbatim>\<open>catch\<close> of \<^verbatim>\<open>app.get('/api/data')\<close> answers with its own body, which
  carries \<^verbatim>\<open>error.message\<close>. The text of that message is set by whoever throws
  (here the engine), so it is the parameter \<open>message\<close>.
\<close>

definition catch_api_data :: "(exn \<Rightarrow> string) \<Rightarrow> exn + response \<Rightarrow> response" where
  "catch_api_data message r =
     (case r of
        Inr x \<Rightarrow> x
      | Inl error \<Rightarrow>
          \<lparr>status = 500,
           body = JObj [(''status'', JStr ''error''),
                        (''message'', JStr ''Internal server error''),
                        (''error'', JStr (message error))]\<rparr>)"

definition get_api_data :: "(exn \<Rightarrow> string) \<Rightarrow> server \<Rightarrow> response" where
  "get_api_data message s = catch_api_data message
     (let data = getLatest (latestData s) in
      if length data = 0 then Inr (res_json (JArr []))
      else bindE (filterE valid_item data) (\<lambda>validData.
        if length validData = 0 then Inr (res_json (JArr []))
        else Inr (res_json (JArr validData))))"

definition power_quality_item :: "jsval \<Rightarrow> exn + jsval" where
  "power_quality_item item =
     bindE (get_prop item ''timestamp'') (\<lambda>timestamp.
     bindE (get_prop item ''volt'') (\<lambda>volt.
     bindE (get_prop item ''current'') (\<lambda>current.
     bindE (get_prop item ''power'') (\<lambda>power.
       Inr (JObj [(''timestamp'', timestamp), (''volt'', volt),
                  (''current'', current), (''power'', power)])))))"

definition get_api_power_quality :: "server \<Rightarrow> response" where
  "get_api_power_quality s = catch500
     (let data = getLatest (latestData s) in
      if length data = 0 then Inr (res_json (JArr []))
      else bindE (mapE power_quality_item data) (\<lambda>powerQualityData.
        Inr (res_json (JArr powerQualityData))))"

definition harmonics_item :: "jsval \<Rightarrow> exn + jsval" where
  "harmonics_item item =
     bindE (get_prop item ''timestamp'') (\<lambda>timestamp.
     bindE (get_prop item ''harmonic'') (\<lambda>harmonic.
       Inr (JObj [(''timestamp'', timestamp), (''harmonic'', harmonic)])))"

definition get_api_harmonics :: "server \<Rightarrow> response" where
  "get_api_harmonics s = catch500
     (let data = getLatest (latestData s) in
      if length data = 0 then Inr (res_json (JArr []))
      else bindE (mapE harmonics_item data) (\<lambda>harmonicsData.
        Inr (res_json (JArr harmonicsData))))"

definition events_item :: "jsval \<Rightarrow> exn + jsval" where
  "events_item item =
     bindE (get_prop item ''timestamp'') (\<lambda>timestamp.
     bindE (get_prop item ''events'') (\<lambda>events.
       Inr (JObj [(''timestamp'', timestamp), (''events'', events)])))"

definition get_api_events :: "server \<Rightarrow> response" where
  "get_api_events s = catch500
     (let data = getLatest (latestData s) in
      if length data = 0 then Inr (res_json (JArr []))
      else bindE (mapE events_item data) (\<lambda>eventsData.
        Inr (res_json (JArr eventsData))))"

text \<open>The server at start-up: no client, an empty buffer, nothing scheduled.\<close>

definition init_server :: server where
  "init_server = \<lparr>clients = [], latestData = JNull, immediates = []\<rparr>"

section \<open>Sweep cycles and acknowledgments as events\<close>

text \<open>
  The two event sources that write to the liveness flag: the timer of
  \<^verbatim>\<open>pingInterval\<close> and the \<^verbatim>\<open>pong\<close> handler of a connection. Each runs to
  completion before the next event is taken.
\<close>

datatype event = Sweep | Pong string int

fun step :: "event \<Rightarrow> registry \<Rightarrow> registry" where
  "step Sweep m = fst (pingInterval m)"
| "step (Pong clientId now) m = pong clientId now m"

definition run :: "event list \<Rightarrow> registry \<Rightarrow> registry" where
  "run evs m = fold step evs m"

fun is_pong_of :: "string \<Rightarrow> event \<Rightarrow> bool" where
  "is_pong_of clientId (Pong c now) = (c = clientId)"
| "is_pong_of clientId Sweep = False"

text \<open>
  A schedule in which the client acknowledges between every two consecutive sweeps:
  \<open>acked\<close> says whether an acknowledgment of the client has arrived since the last
  sweep, and every sweep of the schedule finds it true.
\<close>

fun acks_every_cycle :: "string \<Rightarrow> bool \<Rightarrow> event list \<Rightarrow> bool" where
  "acks_every_cycle clientId acked [] = True"
| "acks_every_cycle clientId acked (Sweep # evs) =
     (acked \<and> acks_every_cycle clientId False evs)"
| "acks_every_cycle clientId acked (Pong c now # evs) =
     acks_every_cycle clientId (acked \<or> c = clientId) evs"

section \<open>Closed forms and observers used in the statements\<close>

text \<open>The properties of the sample that the ingest handler stores for a payload it
  accepts: what \<^const>\<open>storedData\<close> returns when no property read throws.\<close>

definition stored_fields :: "int \<Rightarrow> jsval \<Rightarrow> (string \<times> jsval) list" where
  "stored_fields now data =
     [(''timestamp'', own_prop data ''timestamp''),
      (''volt'', arrayOrEmpty (own_prop data ''volt'')),
      (''current'', arrayOrEmpty (own_prop data ''current'')),
      (''power'', arrayOrEmpty (own_prop data ''power'')),
      (''harmonic'', own_prop data ''harmonic''),
      (''events'', arrayOrEmpty (own_prop data ''events'')),
      (''receivedAt'', JNum now)]"

text \<open>Observers of an effect list: the send attempts and the serialisations in it.\<close>

fun is_send :: "effect \<Rightarrow> bool" where
  "is_send (Send clientId message) = True"
| "is_send e = False"

fun is_stringify :: "effect \<Rightarrow> bool" where
  "is_stringify (Stringify v) = True"
| "is_stringify e = False"

text \<open>What one visit of the broadcast does to the outside, and whether it marks the
  entry for removal.\<close>

definition visit_effects :: "string \<Rightarrow> string \<times> clientInfo \<Rightarrow> effect list" where
  "visit_effects message e =
     (if readyState (ws (snd e)) = OPEN then
        (if sendThrows (ws (snd e)) then [Send (fst e) message, ConsoleError (fst e)]
         else [Send (fst e) message])
      else [])"

definition visit_fails :: "string \<times> clientInfo \<Rightarrow> bool" where
  "visit_fails e = (readyState (ws (snd e)) \<noteq> OPEN \<or> sendThrows (ws (snd e)))"

text \<open>The registry after a sweep, in closed form: the entries that were alive and
  whose ping did not throw, each with the flag cleared.\<close>

definition survives :: "string \<times> clientInfo \<Rightarrow> bool" where
  "survives e = (isAlive (snd e) \<and> \<not> pingThrows (ws (snd e)))"

definition flag_cleared :: "string \<times> clientInfo \<Rightarrow> string \<times> clientInfo" where
  "flag_cleared e = (fst e, (snd e)\<lparr>isAlive := False\<rparr>)"

definition swept :: "registry \<Rightarrow> registry" where
  "swept m = map flag_cleared (filter survives m)"

section \<open>The validation gate in the spec's words\<close>

text \<open>
  A payload is invalid when it is structurally absent, when it lacks a
  \<^verbatim>\<open>timestamp\<close> (any JSON scalar counts as carrying one; \<^verbatim>\<open>null\<close> does not, by
  P2), or when \<^verbatim>\<open>harmonic\<close> is not an array.
\<close>

definition spec_carries_timestamp :: "jsval \<Rightarrow> bool" where
  "spec_carries_timestamp p =
     (own_prop p ''timestamp'' \<noteq> JUndefined \<and> own_prop p ''timestamp'' \<noteq> JNull)"

definition spec_invalid_payload :: "jsval \<Rightarrow> bool" where
  "spec_invalid_payload p =
     (p = JUndefined \<or> p = JNull \<or> \<not> spec_carries_timestamp p \<or>
      \<not> isArray (own_prop p ''harmonic''))"

section \<open>Example inputs\<close>

text \<open>Transports: one that works, one whose \<^verbatim>\<open>send\<close> and \<^verbatim>\<open>ping\<close> throw, one that
  is closing and throws on every call.\<close>

definition open_socket :: websocket where
  "open_socket = \<lparr>readyState = OPEN, sendThrows = False, pingThrows = False, terminateThrows = False\<rparr>"

definition broken_socket :: websocket where
  "broken_socket = \<lparr>readyState = OPEN, sendThrows = True, pingThrows = True, terminateThrows = False\<rparr>"

definition stuck_socket :: websocket where
  "stuck_socket = \<lparr>readyState = CLOSING, sendThrows = True, pingThrows = True, terminateThrows = True\<rparr>"

definition stuck_client :: clientInfo where
  "stuck_client = \<lparr>ws = stuck_socket, connectedAt = 10, lastPing = 11, isAlive = False\<rparr>"

text \<open>Registries built by successive connections.\<close>

definition one_client :: registry where
  "one_client = connection ''k3x9q2'' open_socket 10 11 []"

definition two_clients :: registry where
  "two_clients = connection ''p0w4tz'' open_socket 20 21 one_client"

definition three_clients :: registry where
  "three_clients = connection ''m81c5d'' open_socket 30 31
     (connection ''p0w4tz'' broken_socket 20 21 one_client)"

text \<open>Payloads: the scenario of the spec with harmonic values \<open>hs\<close>, the payloads of P2
  and P3 (the latter with an empty \<^verbatim>\<open>harmonic\<close>), and two more.\<close>

definition scenario_payload :: "int list \<Rightarrow> jsval" where
  "scenario_payload hs =
     JObj [(''timestamp'', JNum 1000),
           (''volt'', JArr [JNum 120, JNum 121, JNum 119, JNum 0]),
           (''current'', JArr [JNum 10, JNum 10, JNum 10, JNum 0]),
           (''power'', JArr [JNum 50, JNum 10, JNum 52]),
           (''harmonic'', JArr (map JNum hs)),
           (''events'', JArr [])]"

definition null_timestamp_payload :: jsval where
  "null_timestamp_payload = JObj [(''timestamp'', JNull), (''harmonic'', JArr [JNum 1, JNum 2])]"

definition degraded_payload :: jsval where
  "degraded_payload =
     JObj [(''timestamp'', JNum 5), (''harmonic'', JArr []), (''volt'', JStr ''not-an-array'')]"

definition zero_timestamp_payload :: jsval where
  "zero_timestamp_payload = JObj [(''timestamp'', JNum 0), (''harmonic'', JArr [JNum 1, JNum 2])]"

definition second_payload :: jsval where
  "second_payload =
     JObj [(''timestamp'', JNum 1001), (''volt'', JArr [JNum 118]), (''harmonic'', JArr [JNum 3])]"

text \<open>Two sweeps with one acknowledgment between them.\<close>

definition example_schedule :: "event list" where
  "example_schedule = [Sweep, Pong ''m81c5d'' 50, Sweep]"

section \<open>Facts about the \<^verbatim>\<open>Map\<close> operations\<close>

lemma map_of_map_set: "map_of (map_set k v m) = (map_of m)(k \<mapsto> v)"
  by (induction m) (auto simp: fun_eq_iff)

lemma keys_map_set:
  "map fst (map_set k v m) = (if k \<in> fst ` set m then map fst m else map fst m @ [k])"
  by (induction m) force+

lemma distinct_map_set: "distinct (map fst m) \<Longrightarrow> distinct (map fst (map_set k v m))"
  by (simp add: keys_map_set)

lemma map_set_fresh: "map_of m k = None \<Longrightarrow> map_set k v m = m @ [(k, v)]"
  by (induction m) (auto split: if_splits)

lemma length_map_set_present: "map_of m k = Some v' \<Longrightarrow> length (map_set k v m) = length m"
  by (induction m) (auto split: if_splits)

lemma map_delete_absent: "map_of m k = None \<Longrightarrow> map_delete k m = m"
  by (induction m) (auto split: if_splits)

lemma keys_map_delete: "map fst (map_delete k m) = remove1 k (map fst m)"
  by (induction m) auto

lemma distinct_map_delete: "distinct (map fst m) \<Longrightarrow> distinct (map fst (map_delete k m))"
  by (simp add: keys_map_delete)

lemma map_of_map_delete:
  "distinct (map fst m) \<Longrightarrow> map_of (map_delete k m) x = (if x = k then None else map_of m x)"
proof (induction m)
  case Nil
  then show ?case by simp
next
  case (Cons p m)
  obtain k' v' where p: "p = (k', v')" by (cases p)
  from Cons.prems p have notin: "k' \<notin> fst ` set m" and d: "distinct (map fst m)" by auto
  show ?case
  proof (cases "k' = k")
    case True
    with notin have "map_of m k = None" by (simp add: map_of_eq_None_iff)
    with True p show ?thesis by simp
  next
    case False
    with p Cons.IH [OF d] show ?thesis by auto
  qed
qed

lemma length_map_delete_present:
  "map_of m k = Some v \<Longrightarrow> Suc (length (map_delete k m)) = length m"
  by (induction m) (auto split: if_splits)

lemma pong_absent: "map_of m cid = None \<Longrightarrow> pong cid now m = m"
  by (simp add: pong_def)

lemma cleanupClient_absent: "map_of m cid = None \<Longrightarrow> cleanupClient cid m = (m, [])"
  by (simp add: cleanupClient_def)

lemma fst_cleanupClient: "fst (cleanupClient cid m) = map_delete cid m"
  by (simp add: cleanupClient_def map_delete_absent split: option.splits)

lemma map_of_cleanupClient:
  "distinct (map fst m) \<Longrightarrow> map_of (fst (cleanupClient cid m)) cid = None"
  by (simp add: fst_cleanupClient map_of_map_delete)

section \<open>The registry: removal, acknowledgments, new connections\<close>

text \<open>
  C10. A pong for a client id that is not in the registry changes nothing: the
  registry is returned as it is, and no entry is inserted. In particular, after
  \<^verbatim>\<open>cleanupClient\<close> has removed the client, its pong handler leaves the registry
  as it is and the id stays absent.
\<close>

theorem pong_after_removal_noop:
  "(map_of m cid = None \<longrightarrow> pong cid now m = m) \<and>
   (distinct (map fst m) \<longrightarrow>
      pong cid now (fst (cleanupClient cid m)) = fst (cleanupClient cid m) \<and>
      map_of (pong cid now (fst (cleanupClient cid m))) cid = None \<and>
      length (pong cid now (fst (cleanupClient cid m))) = length (fst (cleanupClient cid m)))"
  by (simp add: pong_absent map_of_cleanupClient)

theorem pong_after_removal_noop_witness:
  "map_of one_client ''zzzzzz'' = None \<and> pong ''zzzzzz'' 99 one_client = one_client \<and>
   distinct (map fst one_client) \<and>
   pong ''k3x9q2'' 99 (fst (cleanupClient ''k3x9q2'' one_client)) = [] \<and>
   map_of (pong ''k3x9q2'' 99 (fst (cleanupClient ''k3x9q2'' one_client))) ''k3x9q2'' = None"
  using pong_after_removal_noop [of one_client "''zzzzzz''" 99]
    pong_after_removal_noop [of one_client "''k3x9q2''" 99]
  by (simp add: one_client_def connection_def cleanupClient_def)

text \<open>
  C6. \<^verbatim>\<open>cleanupClient\<close> is idempotent: on an id that is not in the registry it
  returns the registry as it is and does nothing to any transport; a second call
  right after a first one is such a call, so the size stays what the first call
  made it (one less when the id was present). When \<^verbatim>\<open>terminate\<close> throws, the
  exception is caught and logged and the entry is deleted all the same.
\<close>

theorem cleanupClient_idempotent:
  "(map_of m cid = None \<longrightarrow> cleanupClient cid m = (m, [])) \<and>
   (distinct (map fst m) \<longrightarrow>
      cleanupClient cid (fst (cleanupClient cid m)) = (fst (cleanupClient cid m), [])) \<and>
   (map_of m cid = Some c \<longrightarrow> Suc (length (fst (cleanupClient cid m))) = length m) \<and>
   (map_of m cid = Some c \<and> terminateThrows (ws c) \<longrightarrow>
      cleanupClient cid m = (map_delete cid m, [Terminate cid, ConsoleError cid]))"
proof (intro conjI impI)
  assume "map_of m cid = None"
  then show "cleanupClient cid m = (m, [])" by (rule cleanupClient_absent)
next
  assume "distinct (map fst m)"
  then have "map_of (fst (cleanupClient cid m)) cid = None" by (rule map_of_cleanupClient)
  then show "cleanupClient cid (fst (cleanupClient cid m)) = (fst (cleanupClient cid m), [])"
    by (rule cleanupClient_absent)
next
  assume "map_of m cid = Some c"
  then show "Suc (length (fst (cleanupClient cid m))) = length m"
    by (simp add: fst_cleanupClient length_map_delete_present)
next
  assume "map_of m cid = Some c \<and> terminateThrows (ws c)"
  then show "cleanupClient cid m = (map_delete cid m, [Terminate cid, ConsoleError cid])"
    by (simp add: cleanupClient_def ws_terminate_def)
qed

theorem cleanupClient_idempotent_witness:
  "map_of ([] :: registry) ''k3x9q2'' = None \<and> cleanupClient ''k3x9q2'' [] = ([], []) \<and>
   distinct (map fst [(''k3x9q2'', stuck_client)]) \<and>
   map_of [(''k3x9q2'', stuck_client)] ''k3x9q2'' = Some stuck_client \<and>
   terminateThrows (ws stuck_client) \<and>
   cleanupClient ''k3x9q2'' [(''k3x9q2'', stuck_client)] =
     ([], [Terminate ''k3x9q2'', ConsoleError ''k3x9q2'']) \<and>
   cleanupClient ''k3x9q2'' (fst (cleanupClient ''k3x9q2'' [(''k3x9q2'', stuck_client)])) = ([], [])"
  using cleanupClient_idempotent [of "[]" "''k3x9q2''" stuck_client]
    cleanupClient_idempotent [of "[(''k3x9q2'', stuck_client)]" "''k3x9q2''" stuck_client]
  by (simp add: stuck_client_def stuck_socket_def)

text \<open>
  New connections and the keys of the registry. The id of a new connection is a
  string drawn from \<^verbatim>\<open>Math.random()\<close> and is not compared with the ids in the
  registry. The keys stay distinct after every connection, and when the drawn id is
  not in the registry the new entry is appended and every existing entry stays in
  place. When the drawn id is in the registry, \<^verbatim>\<open>Map.set\<close> puts the new entry in
  the place of the one that was there.
\<close>

lemma connection_keys:
  "(distinct (map fst m) \<longrightarrow> distinct (map fst (connection cid w t1 t2 m))) \<and>
   (map_of m cid = None \<longrightarrow>
      connection cid w t1 t2 m =
        m @ [(cid, \<lparr>ws = w, connectedAt = t1, lastPing = t2, isAlive = True\<rparr>)]) \<and>
   (map_of m cid \<noteq> None \<longrightarrow>
      length (connection cid w t1 t2 m) = length m \<and>
      map_of (connection cid w t1 t2 m) cid =
        Some \<lparr>ws = w, connectedAt = t1, lastPing = t2, isAlive = True\<rparr>)"
  by (auto simp: connection_def distinct_map_set map_set_fresh length_map_set_present
      map_of_map_set)

lemma connection_keys_example:
  "distinct (map fst one_client) \<and> map_of one_client ''p0w4tz'' = None \<and>
   connection ''p0w4tz'' open_socket 20 21 one_client =
     one_client @ [(''p0w4tz'', \<lparr>ws = open_socket, connectedAt = 20, lastPing = 21, isAlive = True\<rparr>)] \<and>
   map_of one_client ''k3x9q2'' \<noteq> None \<and>
   length (connection ''k3x9q2'' open_socket 20 21 one_client) = length one_client"
  using connection_keys [of one_client "''p0w4tz''" open_socket 20 21]
    connection_keys [of one_client "''k3x9q2''" open_socket 20 21]
  by (simp add: one_client_def connection_def)

text \<open>
  C7 on the code. Two connections for which the generator yields the same string:
  the id that was drawn to identify the second connection is the key of the first.
  The entry of the first connection is in the registry before the second connection
  and is gone after it; the registry holds the entry of the second alone and has not
  grown. The \<^verbatim>\<open>close\<close> and \<^verbatim>\<open>error\<close> handlers of the first connection call
  \<^verbatim>\<open>cleanupClient\<close> with that id: the call terminates the transport found under it
  and deletes the entry of the second connection.
\<close>

theorem connection_id_collision:
  "(''k3x9q2'', \<lparr>ws = open_socket, connectedAt = 10, lastPing = 11, isAlive = True\<rparr>)
      \<in> set one_client \<and>
   connection ''k3x9q2'' open_socket 20 21 one_client =
     [(''k3x9q2'', \<lparr>ws = open_socket, connectedAt = 20, lastPing = 21, isAlive = True\<rparr>)] \<and>
   (''k3x9q2'', \<lparr>ws = open_socket, connectedAt = 10, lastPing = 11, isAlive = True\<rparr>)
      \<notin> set (connection ''k3x9q2'' open_socket 20 21 one_client) \<and>
   length (connection ''k3x9q2'' open_socket 20 21 one_client) = length one_client \<and>
   cleanupClient ''k3x9q2'' (connection ''k3x9q2'' open_socket 20 21 one_client) =
     ([], [Terminate ''k3x9q2''])"
  by (simp add: one_client_def connection_def cleanupClient_def ws_terminate_def
      open_socket_def)

section \<open>Ingestion\<close>

lemma truthy_not_nullish: "truthy v \<Longrightarrow> v \<noteq> JUndefined \<and> v \<noteq> JNull"
  by (cases v) simp_all

lemma get_prop_truthy: "truthy v \<Longrightarrow> get_prop v k = Inr (own_prop v k)"
  using truthy_not_nullish [of v] by (simp add: get_prop_def)

lemma own_prop_falsy: "\<not> truthy v \<Longrightarrow> own_prop v k = JUndefined"
  by (cases v) simp_all

lemma truthy_iff:
  "truthy v \<longleftrightarrow> v \<notin> {JUndefined, JNull, JBool False, JNum 0, JStr ''''}"
  by (cases v) auto

lemma storedData_truthy: "truthy data \<Longrightarrow> storedData now data = Inr (stored_fields now data)"
  by (simp add: storedData_def stored_fields_def bindE_def get_prop_truthy)

lemma post_api_data_reject:
  assumes "\<not> (truthy data \<and> truthy (own_prop data ''timestamp'') \<and>
              isArray (own_prop data ''harmonic''))"
  shows "post_api_data now1 now2 data s = (invalid_data_format, s)"
proof (cases "truthy data")
  case False
  then show ?thesis by (simp add: post_api_data_def post_api_data_try_def)
next
  case True
  with assms show ?thesis
    by (auto simp: post_api_data_def post_api_data_try_def get_prop_truthy)
qed

lemma post_api_data_accept:
  assumes "truthy data" "truthy (own_prop data ''timestamp'')"
    "isArray (own_prop data ''harmonic'')"
  shows "post_api_data now1 now2 data s =
    (res_json (JObj [(''status'', JStr ''success''),
                     (''timestamp'', own_prop data ''timestamp''),
                     (''clientCount'', JNum (int (length (clients s))))]),
     s\<lparr>latestData := push now2 (stored_fields now1 data),
       immediates := immediates s @ [JObj (stored_fields now1 data)]\<rparr>)"
  using assms
  by (simp add: post_api_data_def post_api_data_try_def get_prop_truthy storedData_truthy
      Let_def)

lemma push_stored_fields:
  "push now2 (stored_fields now1 data) =
     JObj (stored_fields now1 data @ [(''storedAt'', JNum now2)])"
  by (simp add: push_def stored_fields_def)

lemma status_invalid: "status invalid_data_format = 400"
  by (simp add: invalid_data_format_def)

lemma status_res_json: "status (res_json v) = 200"
  by (simp add: res_json_def)

lemma res_json_not_invalid: "res_json v \<noteq> invalid_data_format"
  by (simp add: res_json_def invalid_data_format_def)

text \<open>
  C2, as the code has it. The handler answers 400 (invalid data format) exactly when
  the payload is \<^verbatim>\<open>undefined\<close> or \<^verbatim>\<open>null\<close>, or its \<^verbatim>\<open>timestamp\<close> is missing or
  falsy (\<^verbatim>\<open>null\<close>, \<^verbatim>\<open>false\<close>, \<^verbatim>\<open>0\<close>, the empty string), or its \<^verbatim>\<open>harmonic\<close> is
  not an array. In that case the state (store, scheduled broadcasts, registry) is
  what it was. In every other case the answer is 200, the store holds the new
  sample, one broadcast of it is scheduled, and the registry is what it was.
\<close>

theorem validation_gate:
  "(fst (post_api_data now1 now2 data s) = invalid_data_format \<longleftrightarrow>
      data = JUndefined \<or> data = JNull \<or>
      own_prop data ''timestamp'' \<in> {JUndefined, JNull, JBool False, JNum 0, JStr ''''} \<or>
      \<not> isArray (own_prop data ''harmonic'')) \<and>
   (fst (post_api_data now1 now2 data s) = invalid_data_format \<longrightarrow>
      snd (post_api_data now1 now2 data s) = s) \<and>
   (fst (post_api_data now1 now2 data s) \<noteq> invalid_data_format \<longrightarrow>
      status (fst (post_api_data now1 now2 data s)) = 200 \<and>
      latestData (snd (post_api_data now1 now2 data s)) = push now2 (stored_fields now1 data) \<and>
      immediates (snd (post_api_data now1 now2 data s)) =
        immediates s @ [JObj (stored_fields now1 data)] \<and>
      clients (snd (post_api_data now1 now2 data s)) = clients s)"
proof (cases "truthy data \<and> truthy (own_prop data ''timestamp'') \<and>
    isArray (own_prop data ''harmonic'')")
  case True
  then have ok: "truthy data" "truthy (own_prop data ''timestamp'')"
    "isArray (own_prop data ''harmonic'')" by simp_all
  from ok(1) have "data \<noteq> JUndefined \<and> data \<noteq> JNull" by (rule truthy_not_nullish)
  moreover from ok(2)
  have "own_prop data ''timestamp'' \<notin> {JUndefined, JNull, JBool False, JNum 0, JStr ''''}"
    using truthy_iff [of "own_prop data ''timestamp''"] by blast
  ultimately show ?thesis
    using ok(3) by (simp add: post_api_data_accept [OF ok] res_json_not_invalid status_res_json)
next
  case False
  have "data = JUndefined \<or> data = JNull \<or>
      own_prop data ''timestamp'' \<in> {JUndefined, JNull, JBool False, JNum 0, JStr ''''} \<or>
      \<not> isArray (own_prop data ''harmonic'')"
  proof (cases "truthy data")
    case True
    with False show ?thesis
      using truthy_iff [of "own_prop data ''timestamp''"] truthy_not_nullish [of data] by blast
  next
    case False
    then have "own_prop data ''timestamp'' = JUndefined" by (rule own_prop_falsy)
    then show ?thesis by simp
  qed
  then show ?thesis by (simp add: post_api_data_reject [OF False])
qed

theorem validation_gate_witness:
  "fst (post_api_data 2000 2001 null_timestamp_payload init_server) = invalid_data_format \<and>
   own_prop null_timestamp_payload ''timestamp'' \<in> {JUndefined, JNull, JBool False, JNum 0, JStr ''''} \<and>
   snd (post_api_data 2000 2001 null_timestamp_payload init_server) = init_server \<and>
   fst (post_api_data 2000 2001 (scenario_payload (replicate 40 7)) init_server)
     \<noteq> invalid_data_format \<and>
   isArray (own_prop (scenario_payload (replicate 40 7)) ''harmonic'') \<and>
   status (fst (post_api_data 2000 2001 (scenario_payload (replicate 40 7)) init_server)) = 200 \<and>
   clients (snd (post_api_data 2000 2001 (scenario_payload (replicate 40 7)) init_server)) = []"
  using validation_gate [of 2000 2001 null_timestamp_payload init_server]
    validation_gate [of 2000 2001 "scenario_payload (replicate 40 7)" init_server]
  by (simp add: null_timestamp_payload_def scenario_payload_def init_server_def)

text \<open>
  C2, as the spec states it, fails: a payload whose \<^verbatim>\<open>timestamp\<close> is the JSON
  scalar \<^verbatim>\<open>0\<close> and whose \<^verbatim>\<open>harmonic\<close> is an array is valid by the spec's words,
  and the handler answers 400.
\<close>

theorem validation_gate_counterexample:
  "\<not> spec_invalid_payload zero_timestamp_payload \<and>
   post_api_data 2000 2001 zero_timestamp_payload init_server =
     (invalid_data_format, init_server)"
  by (simp add: spec_invalid_payload_def spec_carries_timestamp_def zero_timestamp_payload_def
      post_api_data_reject)

text \<open>
  C1. After two successful ingests, of \<open>A\<close> and then of \<open>B\<close>, \<^verbatim>\<open>getLatest\<close>
  returns exactly one element: the sample built from \<open>B\<close> (its timestamp and
  harmonic, its other four fields or the empty array, and the two stamps of the
  second ingest). Nothing of \<open>A\<close> is in it. \<^verbatim>\<open>getLatest\<close> never returns more than
  one element.
\<close>

theorem single_slot:
  assumes "post_api_data a1 a2 A s = (rA, sA)" and "status rA = 200"
    and "post_api_data b1 b2 B sA = (rB, sB)" and "status rB = 200"
  shows "getLatest (latestData sB) =
      [JObj [(''timestamp'', own_prop B ''timestamp''),
             (''volt'', arrayOrEmpty (own_prop B ''volt'')),
             (''current'', arrayOrEmpty (own_prop B ''current'')),
             (''power'', arrayOrEmpty (own_prop B ''power'')),
             (''harmonic'', own_prop B ''harmonic''),
             (''events'', arrayOrEmpty (own_prop B ''events'')),
             (''receivedAt'', JNum b1),
             (''storedAt'', JNum b2)]] \<and>
    length (getLatest x) \<le> 1"
proof -
  have okB: "truthy B \<and> truthy (own_prop B ''timestamp'') \<and> isArray (own_prop B ''harmonic'')"
  proof (rule ccontr)
    assume "\<not> ?thesis"
    then have "post_api_data b1 b2 B sA = (invalid_data_format, sA)"
      by (rule post_api_data_reject)
    with assms(3,4) show False by (simp add: status_invalid)
  qed
  then have "post_api_data b1 b2 B sA =
    (res_json (JObj [(''status'', JStr ''success''),
                     (''timestamp'', own_prop B ''timestamp''),
                     (''clientCount'', JNum (int (length (clients sA))))]),
     sA\<lparr>latestData := push b2 (stored_fields b1 B),
       immediates := immediates sA @ [JObj (stored_fields b1 B)]\<rparr>)"
    by (simp add: post_api_data_accept)
  with assms(3) have "latestData sB = push b2 (stored_fields b1 B)" by auto
  then have "getLatest (latestData sB) = [JObj (stored_fields b1 B @ [(''storedAt'', JNum b2)])]"
    by (simp add: getLatest_def push_stored_fields)
  moreover have "length (getLatest x) \<le> 1" by (simp add: getLatest_def)
  ultimately show ?thesis by (simp add: stored_fields_def)
qed

theorem single_slot_witness:
  "status (fst (post_api_data 2000 2001 (scenario_payload (replicate 40 7)) init_server)) = 200 \<and>
   status (fst (post_api_data 2002 2003 second_payload
     (snd (post_api_data 2000 2001 (scenario_payload (replicate 40 7)) init_server)))) = 200 \<and>
   getLatest (latestData (snd (post_api_data 2002 2003 second_payload
     (snd (post_api_data 2000 2001 (scenario_payload (replicate 40 7)) init_server))))) =
     [JObj [(''timestamp'', JNum 1001),
            (''volt'', JArr [JNum 118]),
            (''current'', JArr []),
            (''power'', JArr []),
            (''harmonic'', JArr [JNum 3]),
            (''events'', JArr []),
            (''receivedAt'', JNum 2002),
            (''storedAt'', JNum 2003)]]"
proof -
  have h1: "status (fst (post_api_data 2000 2001 (scenario_payload (replicate 40 7))
      init_server)) = 200"
    by (simp add: post_api_data_accept scenario_payload_def status_res_json)
  have h2: "status (fst (post_api_data 2002 2003 second_payload
     (snd (post_api_data 2000 2001 (scenario_payload (replicate 40 7)) init_server)))) = 200"
    by (simp add: post_api_data_accept second_payload_def status_res_json)
  from single_slot [OF prod.collapse [symmetric] h1 prod.collapse [symmetric] h2] h1 h2
  show ?thesis by (simp add: second_payload_def arrayOrEmpty_def)
qed

text \<open>
  C8, as the code has it. After the scenario payload is ingested, \<^verbatim>\<open>getLatest\<close>
  returns exactly one element: the sample followed by the stamp \<^verbatim>\<open>receivedAt\<close> of
  the handler and the stamp \<^verbatim>\<open>storedAt\<close> of the buffer. The power-quality
  endpoint answers with the fields \<^verbatim>\<open>timestamp\<close>, \<^verbatim>\<open>volt\<close>, \<^verbatim>\<open>current\<close> and
  \<^verbatim>\<open>power\<close> of that sample and nothing else. This holds for every list of
  harmonic values, so for the 40 of the scenario.
\<close>

theorem scenario_round_trip:
  "getLatest (latestData (snd (post_api_data now1 now2 (scenario_payload hs) s))) =
     [JObj [(''timestamp'', JNum 1000),
            (''volt'', JArr [JNum 120, JNum 121, JNum 119, JNum 0]),
            (''current'', JArr [JNum 10, JNum 10, JNum 10, JNum 0]),
            (''power'', JArr [JNum 50, JNum 10, JNum 52]),
            (''harmonic'', JArr (map JNum hs)),
            (''events'', JArr []),
            (''receivedAt'', JNum now1),
            (''storedAt'', JNum now2)]] \<and>
   get_api_power_quality (snd (post_api_data now1 now2 (scenario_payload hs) s)) =
     res_json (JArr
       [JObj [(''timestamp'', JNum 1000),
              (''volt'', JArr [JNum 120, JNum 121, JNum 119, JNum 0]),
              (''current'', JArr [JNum 10, JNum 10, JNum 10, JNum 0]),
              (''power'', JArr [JNum 50, JNum 10, JNum 52])]])"
proof -
  have st: "snd (post_api_data now1 now2 (scenario_payload hs) s) =
      s\<lparr>latestData := push now2 (stored_fields now1 (scenario_payload hs)),
        immediates := immediates s @ [JObj (stored_fields now1 (scenario_payload hs))]\<rparr>"
    by (simp add: post_api_data_accept scenario_payload_def)
  have sf: "push now2 (stored_fields now1 (scenario_payload hs)) =
     JObj [(''timestamp'', JNum 1000),
            (''volt'', JArr [JNum 120, JNum 121, JNum 119, JNum 0]),
            (''current'', JArr [JNum 10, JNum 10, JNum 10, JNum 0]),
            (''power'', JArr [JNum 50, JNum 10, JNum 52]),
            (''harmonic'', JArr (map JNum hs)),
            (''events'', JArr []),
            (''receivedAt'', JNum now1),
            (''storedAt'', JNum now2)]"
    by (simp add: push_def stored_fields_def scenario_payload_def arrayOrEmpty_def)
  show ?thesis
    unfolding st
    by (simp add: sf getLatest_def get_api_power_quality_def power_quality_item_def
        bindE_def get_prop_def catch500_def)
qed

theorem scenario_round_trip_witness:
  "length (replicate 40 (7::int)) = 40 \<and>
   getLatest (latestData (snd (post_api_data 2000 2001 (scenario_payload (replicate 40 7))
       init_server))) =
     [JObj [(''timestamp'', JNum 1000),
            (''volt'', JArr [JNum 120, JNum 121, JNum 119, JNum 0]),
            (''current'', JArr [JNum 10, JNum 10, JNum 10, JNum 0]),
            (''power'', JArr [JNum 50, JNum 10, JNum 52]),
            (''harmonic'', JArr (map JNum (replicate 40 7))),
            (''events'', JArr []),
            (''receivedAt'', JNum 2000),
            (''storedAt'', JNum 2001)]]"
  using scenario_round_trip [of 2000 2001 "replicate 40 7" init_server] by simp

text \<open>
  C8, as the spec states it, fails: the element that \<^verbatim>\<open>getLatest\<close> returns is not
  the sample plus \<^verbatim>\<open>receivedAt\<close> alone; it also has the field \<^verbatim>\<open>storedAt\<close> that
  \<^verbatim>\<open>DataBuffer.push\<close> adds.
\<close>

theorem scenario_round_trip_counterexample:
  "getLatest (latestData (snd (post_api_data 2000 2001 (scenario_payload (replicate 40 7))
       init_server))) \<noteq>
     [JObj [(''timestamp'', JNum 1000),
            (''volt'', JArr [JNum 120, JNum 121, JNum 119, JNum 0]),
            (''current'', JArr [JNum 10, JNum 10, JNum 10, JNum 0]),
            (''power'', JArr [JNum 50, JNum 10, JNum 52]),
            (''harmonic'', JArr (map JNum (replicate 40 7))),
            (''events'', JArr []),
            (''receivedAt'', JNum 2000)]] \<and>
   map (\<lambda>item. own_prop item ''storedAt'')
     (getLatest (latestData (snd (post_api_data 2000 2001 (scenario_payload (replicate 40 7))
       init_server)))) = [JNum 2001]"
  by (simp add: post_api_data_accept scenario_payload_def push_def stored_fields_def
      getLatest_def arrayOrEmpty_def)

text \<open>
  C9 on the code. The payload with a timestamp, an empty \<^verbatim>\<open>harmonic\<close> array and a
  \<^verbatim>\<open>volt\<close> that is not an array is accepted and stored with \<^verbatim>\<open>volt\<close> the empty
  array, and \<^verbatim>\<open>/api/data\<close> then serves the empty array. The three projection
  endpoints do not filter: each serves its projection of that sample.
\<close>

theorem projections_serve_empty_harmonic:
  "status (fst (post_api_data 2000 2001 degraded_payload init_server)) = 200 \<and>
   own_prop (latestData (snd (post_api_data 2000 2001 degraded_payload init_server))) ''volt''
     = JArr [] \<and>
   get_api_data message (snd (post_api_data 2000 2001 degraded_payload init_server)) =
     res_json (JArr []) \<and>
   get_api_harmonics (snd (post_api_data 2000 2001 degraded_payload init_server)) =
     res_json (JArr [JObj [(''timestamp'', JNum 5), (''harmonic'', JArr [])]]) \<and>
   get_api_power_quality (snd (post_api_data 2000 2001 degraded_payload init_server)) =
     res_json (JArr [JObj [(''timestamp'', JNum 5), (''volt'', JArr []),
                           (''current'', JArr []), (''power'', JArr [])]]) \<and>
   get_api_events (snd (post_api_data 2000 2001 degraded_payload init_server)) =
     res_json (JArr [JObj [(''timestamp'', JNum 5), (''events'', JArr [])]])"
proof -
  have st: "post_api_data 2000 2001 degraded_payload init_server =
      (res_json (JObj [(''status'', JStr ''success''), (''timestamp'', JNum 5),
                       (''clientCount'', JNum 0)]),
       init_server\<lparr>latestData :=
           JObj [(''timestamp'', JNum 5), (''volt'', JArr []), (''current'', JArr []),
                 (''power'', JArr []), (''harmonic'', JArr []), (''events'', JArr []),
                 (''receivedAt'', JNum 2000), (''storedAt'', JNum 2001)],
         immediates := immediates init_server @
           [JObj [(''timestamp'', JNum 5), (''volt'', JArr []), (''current'', JArr []),
                 (''power'', JArr []), (''harmonic'', JArr []), (''events'', JArr []),
                 (''receivedAt'', JNum 2000)]]\<rparr>)"
    by (simp add: post_api_data_accept degraded_payload_def push_def
        stored_fields_def arrayOrEmpty_def init_server_def)
  show ?thesis
    unfolding st
    by (simp add: status_res_json getLatest_def get_api_data_def valid_item_def
        get_api_harmonics_def harmonics_item_def get_api_power_quality_def
        power_quality_item_def get_api_events_def events_item_def bindE_def get_prop_def
        catch500_def catch_api_data_def)
qed

section \<open>The broadcast\<close>

lemma broadcast_visit_eq:
  "broadcast_visit message e acc =
     ((if visit_fails e then set_add (fst e) (fst acc) else fst acc),
      snd acc @ visit_effects message e)"
  by (simp add: broadcast_visit_def visit_effects_def visit_fails_def ws_send_def Let_def)

lemma snd_fold_broadcast_visit:
  "snd (fold (broadcast_visit message) m acc) = snd acc @ concat (map (visit_effects message) m)"
  by (induction m arbitrary: acc) (simp_all add: broadcast_visit_eq)

lemma fst_fold_broadcast_visit:
  "fst (fold (broadcast_visit message) m acc) =
     fold set_add (map fst (filter visit_fails m)) (fst acc)"
  by (induction m arbitrary: acc) (simp_all add: broadcast_visit_eq)

lemma cleanupClient_no_send: "filter is_send (snd (cleanupClient cid m)) = []"
  by (simp add: cleanupClient_def split: option.splits sum.splits)

lemma cleanupClient_no_stringify: "filter is_stringify (snd (cleanupClient cid m)) = []"
  by (simp add: cleanupClient_def split: option.splits sum.splits)

lemma cleanup_visit_eq:
  "cleanup_visit cid st = (map_delete cid (fst st), snd st @ snd (cleanupClient cid (fst st)))"
  by (simp add: cleanup_visit_def split_beta fst_cleanupClient [symmetric])

lemma sends_fold_cleanup_visit:
  "filter is_send (snd (fold cleanup_visit ids st)) = filter is_send (snd st)"
  by (induction ids arbitrary: st) (simp_all add: cleanup_visit_eq cleanupClient_no_send)

lemma stringify_fold_cleanup_visit:
  "filter is_stringify (snd (fold cleanup_visit ids st)) = filter is_stringify (snd st)"
  by (induction ids arbitrary: st) (simp_all add: cleanup_visit_eq cleanupClient_no_stringify)

lemma snd_fold_cleanup_visit: "\<exists>fx. snd (fold cleanup_visit ids st) = snd st @ fx"
proof (induction ids arbitrary: st)
  case Nil
  then show ?case by simp
next
  case (Cons cid ids)
  from Cons.IH [of "cleanup_visit cid st"]
  obtain fx where "snd (fold cleanup_visit ids (cleanup_visit cid st)) =
      snd (cleanup_visit cid st) @ fx" ..
  then have "snd (fold cleanup_visit (cid # ids) st) =
      snd st @ (snd (cleanupClient cid (fst st)) @ fx)"
    by (simp add: cleanup_visit_eq)
  then show ?case ..
qed

lemma set_fold_cleanup_visit: "set (snd st) \<subseteq> set (snd (fold cleanup_visit ids st))"
proof -
  obtain fx where "snd (fold cleanup_visit ids st) = snd st @ fx"
    using snd_fold_cleanup_visit ..
  then show ?thesis by simp
qed

lemma fst_fold_cleanup_visit:
  "fst (fold cleanup_visit ids st) = fold map_delete ids (fst st)"
  by (induction ids arbitrary: st) (simp_all add: cleanup_visit_eq)

lemma sends_visit_effects_open:
  "\<forall>e\<in>set m. readyState (ws (snd e)) = OPEN \<Longrightarrow>
   filter is_send (concat (map (visit_effects message) m)) = map (\<lambda>e. Send (fst e) message) m"
  by (induction m) (simp_all add: visit_effects_def)

lemma stringify_visit_effects:
  "filter is_stringify (concat (map (visit_effects message) m)) = []"
  by (induction m) (simp_all add: visit_effects_def)

text \<open>
  C3. When every transport in the registry is open, \<^verbatim>\<open>broadcastData\<close> calls
  \<^verbatim>\<open>send\<close> once for each entry, in the order of the registry, each time with the
  one string that \<^verbatim>\<open>JSON.stringify\<close> gave for the sample; the sample is
  serialised exactly once when the registry has an entry, and with an empty registry
  nothing is serialised and nothing is sent.
\<close>

theorem broadcast_fan_out:
  assumes "\<forall>e\<in>set m. readyState (ws (snd e)) = OPEN"
  shows "filter is_send (snd (broadcastData stringify data m)) =
           map (\<lambda>e. Send (fst e) (stringify data)) m \<and>
         length (filter is_send (snd (broadcastData stringify data m))) = length m \<and>
         filter is_stringify (snd (broadcastData stringify data m)) =
           (if m = [] then [] else [Stringify data]) \<and>
         (m = [] \<longrightarrow> broadcastData stringify data m = ([], []))"
proof (cases "m = []")
  case True
  then show ?thesis by (simp add: broadcastData_def)
next
  case False
  have sends: "filter is_send (snd (broadcastData stringify data m)) =
           map (\<lambda>e. Send (fst e) (stringify data)) m"
    using False assms
    by (simp add: broadcastData_def Let_def sends_fold_cleanup_visit snd_fold_broadcast_visit
        sends_visit_effects_open)
  have ser: "filter is_stringify (snd (broadcastData stringify data m)) = [Stringify data]"
    using False
    by (simp add: broadcastData_def Let_def stringify_fold_cleanup_visit
        snd_fold_broadcast_visit stringify_visit_effects)
  from sends have "length (filter is_send (snd (broadcastData stringify data m))) = length m"
    by simp
  with sends ser False show ?thesis by simp
qed

theorem broadcast_fan_out_witness:
  "map (\<lambda>e. readyState (ws (snd e))) two_clients = [OPEN, OPEN] \<and>
   filter is_send (snd (broadcastData (\<lambda>v. ''{}'') (JObj []) two_clients)) =
     [Send ''k3x9q2'' ''{}'', Send ''p0w4tz'' ''{}''] \<and>
   filter is_stringify (snd (broadcastData (\<lambda>v. ''{}'') (JObj []) two_clients)) =
     [Stringify (JObj [])] \<and>
   broadcastData (\<lambda>v. ''{}'') (JObj []) [] = ([], [])"
proof -
  have op: "\<forall>e\<in>set two_clients. readyState (ws (snd e)) = OPEN"
    by (simp add: two_clients_def one_client_def connection_def open_socket_def)
  have op0: "\<forall>e\<in>set ([] :: registry). readyState (ws (snd e)) = OPEN" by simp
  from broadcast_fan_out [OF op, of "\<lambda>v. ''{}''" "JObj []"]
    broadcast_fan_out [OF op0, of "\<lambda>v. ''{}''" "JObj []"]
  show ?thesis
    by (simp add: two_clients_def one_client_def connection_def open_socket_def)
qed

lemma filter_unique_key:
  assumes "distinct (map fst m)" and "map_of m k = Some v"
    and "\<forall>e\<in>set m. P e \<longleftrightarrow> fst e = k"
  shows "filter P m = [(k, v)]"
  using assms
proof (induction m)
  case Nil
  then show ?case by simp
next
  case (Cons p m)
  obtain k' v' where p: "p = (k', v')" by (cases p)
  show ?case
  proof (cases "k' = k")
    case True
    with Cons.prems p have "\<forall>e\<in>set m. \<not> P e" by force
    then have "filter P m = []" by (simp add: filter_empty_conv)
    with True Cons.prems p show ?thesis by simp
  next
    case False
    with Cons.prems p have "filter P m = [(k, v)]" by (intro Cons.IH) auto
    with False Cons.prems p show ?thesis by simp
  qed
qed

lemma map_delete_keeps: "e \<in> set m \<Longrightarrow> fst e \<noteq> k \<Longrightarrow> e \<in> set (map_delete k m)"
  by (induction m) auto

text \<open>
  C5. In a registry of open connections where the send of exactly one connection,
  \<open>bad\<close>, throws, \<^verbatim>\<open>broadcastData\<close> still calls \<^verbatim>\<open>send\<close> with the payload on every
  other connection, returns normally, and leaves the registry with exactly the entry
  of \<open>bad\<close> deleted: one entry less, every other entry in place. The removal comes
  after the pass: the effects are the serialisation, the visits in the order of the
  registry, then those of \<^verbatim>\<open>cleanupClient\<close> on \<open>bad\<close>.
\<close>

theorem broadcast_failure_isolation:
  assumes "distinct (map fst m)"
    and "\<forall>e\<in>set m. readyState (ws (snd e)) = OPEN"
    and "map_of m bad = Some c" and "sendThrows (ws c)"
    and "\<forall>e\<in>set m. fst e \<noteq> bad \<longrightarrow> \<not> sendThrows (ws (snd e))"
  shows "fst (broadcastData stringify data m) = map_delete bad m \<and>
         Suc (length (fst (broadcastData stringify data m))) = length m \<and>
         map_of (fst (broadcastData stringify data m)) bad = None \<and>
         (\<forall>e\<in>set m. fst e \<noteq> bad \<longrightarrow>
            e \<in> set (fst (broadcastData stringify data m)) \<and>
            Send (fst e) (stringify data) \<in> set (snd (broadcastData stringify data m))) \<and>
         snd (broadcastData stringify data m) =
           Stringify data # concat (map (visit_effects (stringify data)) m) @
             snd (cleanupClient bad m)"
proof -
  from assms(3) have ne: "length m \<noteq> 0" by auto
  have "\<forall>e\<in>set m. visit_fails e \<longleftrightarrow> fst e = bad"
  proof
    fix e assume e: "e \<in> set m"
    show "visit_fails e \<longleftrightarrow> fst e = bad"
    proof (cases "fst e = bad")
      case True
      have "map_of m bad = Some (snd e)"
        using map_of_is_SomeI [of m "fst e" "snd e"] e assms(1) True by (cases e) auto
      with assms(3,4) True show ?thesis by (simp add: visit_fails_def)
    next
      case False
      with e assms(2,5) show ?thesis by (simp add: visit_fails_def)
    qed
  qed
  with assms(1,3) have failed: "filter visit_fails m = [(bad, c)]" by (rule filter_unique_key)
  have reg: "fst (broadcastData stringify data m) = map_delete bad m"
    using ne
    by (simp add: broadcastData_def Let_def fst_fold_broadcast_visit failed set_add_def
        cleanup_visit_eq)
  have fxs: "snd (broadcastData stringify data m) =
      Stringify data # concat (map (visit_effects (stringify data)) m) @
        snd (cleanupClient bad m)"
    using ne
    by (simp add: broadcastData_def Let_def fst_fold_broadcast_visit snd_fold_broadcast_visit
        failed set_add_def cleanup_visit_eq)
  then have fx: "set (concat (map (visit_effects (stringify data)) m))
      \<subseteq> set (snd (broadcastData stringify data m))"
    by auto
  have others: "\<forall>e\<in>set m. fst e \<noteq> bad \<longrightarrow>
            e \<in> set (fst (broadcastData stringify data m)) \<and>
            Send (fst e) (stringify data) \<in> set (snd (broadcastData stringify data m))"
  proof (intro ballI impI conjI)
    fix e assume e: "e \<in> set m" "fst e \<noteq> bad"
    then show "e \<in> set (fst (broadcastData stringify data m))"
      by (simp add: reg map_delete_keeps)
    from e(1) assms(2) have "Send (fst e) (stringify data) \<in> set (visit_effects (stringify data) e)"
      by (simp add: visit_effects_def)
    with e(1) have "Send (fst e) (stringify data)
        \<in> set (concat (map (visit_effects (stringify data)) m))" by auto
    with fx show "Send (fst e) (stringify data) \<in> set (snd (broadcastData stringify data m))"
      by blast
  qed
  from reg assms(1,3) others fxs show ?thesis
    by (simp add: length_map_delete_present map_of_map_delete)
qed

theorem broadcast_failure_isolation_witness:
  "distinct (map fst three_clients) \<and>
   map (\<lambda>e. readyState (ws (snd e))) three_clients = [OPEN, OPEN, OPEN] \<and>
   map (\<lambda>e. sendThrows (ws (snd e))) three_clients = [False, True, False] \<and>
   map_of three_clients ''p0w4tz'' =
     Some \<lparr>ws = broken_socket, connectedAt = 20, lastPing = 21, isAlive = True\<rparr> \<and>
   map fst (fst (broadcastData (\<lambda>v. ''{}'') (JObj []) three_clients)) = [''k3x9q2'', ''m81c5d''] \<and>
   length (fst (broadcastData (\<lambda>v. ''{}'') (JObj []) three_clients)) = 2 \<and>
   Send ''k3x9q2'' ''{}'' \<in> set (snd (broadcastData (\<lambda>v. ''{}'') (JObj []) three_clients)) \<and>
   Send ''m81c5d'' ''{}'' \<in> set (snd (broadcastData (\<lambda>v. ''{}'') (JObj []) three_clients))"
proof -
  have h1: "distinct (map fst three_clients)"
    by (simp add: three_clients_def one_client_def connection_def)
  have h2: "\<forall>e\<in>set three_clients. readyState (ws (snd e)) = OPEN"
    by (simp add: three_clients_def one_client_def connection_def open_socket_def
        broken_socket_def)
  have h3: "map_of three_clients ''p0w4tz'' =
     Some \<lparr>ws = broken_socket, connectedAt = 20, lastPing = 21, isAlive = True\<rparr>"
    by (simp add: three_clients_def one_client_def connection_def)
  have h4: "sendThrows (ws \<lparr>ws = broken_socket, connectedAt = 20, lastPing = 21, isAlive = True\<rparr>)"
    by (simp add: broken_socket_def)
  have h5: "\<forall>e\<in>set three_clients. fst e \<noteq> ''p0w4tz'' \<longrightarrow> \<not> sendThrows (ws (snd e))"
    by (simp add: three_clients_def one_client_def connection_def open_socket_def)
  from broadcast_failure_isolation [OF h1 h2 h3 h4 h5, of "\<lambda>v. ''{}''" "JObj []"]
    h1 h3
  show ?thesis
    by (simp add: three_clients_def one_client_def connection_def visit_effects_def
        open_socket_def broken_socket_def)
qed

section \<open>The liveness sweep\<close>

lemma map_of_append_notin: "k \<notin> fst ` set xs \<Longrightarrow> map_of (xs @ (k, v) # ys) k = Some v"
  by (induction xs) auto

lemma map_delete_append_notin:
  "k \<notin> fst ` set xs \<Longrightarrow> map_delete k (xs @ (k, v) # ys) = xs @ ys"
  by (induction xs) auto

lemma map_set_append_notin:
  "k \<notin> fst ` set xs \<Longrightarrow> map_set k v (xs @ (k, v') # ys) = xs @ (k, v) # ys"
  by (induction xs) auto

lemma sweep_visit_dead:
  assumes "k \<notin> fst ` set xs" and "\<not> isAlive c"
  shows "fst (sweep_visit k (xs @ (k, c) # ys, fx)) = xs @ ys"
  using assms
  by (simp add: sweep_visit_def map_of_append_notin cleanupClient_def map_delete_append_notin
      del: map_of_append)

lemma sweep_visit_ping_ok:
  assumes "k \<notin> fst ` set xs" and "isAlive c" and "\<not> pingThrows (ws c)"
  shows "fst (sweep_visit k (xs @ (k, c) # ys, fx)) = xs @ (k, c\<lparr>isAlive := False\<rparr>) # ys"
  using assms
  by (simp add: sweep_visit_def map_of_append_notin ws_ping_def map_set_append_notin
      del: map_of_append)

lemma sweep_visit_ping_throws:
  assumes "k \<notin> fst ` set xs" and "isAlive c" and "pingThrows (ws c)"
  shows "fst (sweep_visit k (xs @ (k, c) # ys, fx)) = xs @ ys"
  using assms
  by (simp add: sweep_visit_def map_of_append_notin ws_ping_def map_set_append_notin
      cleanupClient_def map_delete_append_notin del: map_of_append)

lemma fold_sweep_visit:
  "distinct (map fst (xs @ ys)) \<Longrightarrow>
   fst (fold sweep_visit (map fst ys) (xs @ ys, fx)) = xs @ swept ys"
proof (induction ys arbitrary: xs fx)
  case Nil
  then show ?case by (simp add: swept_def)
next
  case (Cons p ys)
  obtain k c where p: "p = (k, c)" by (cases p)
  from Cons.prems p have k: "k \<notin> fst ` set xs" and d: "distinct (map fst (xs @ ys))"
    and d': "distinct (map fst ((xs @ [(k, c\<lparr>isAlive := False\<rparr>)]) @ ys))"
    by auto
  let ?st = "sweep_visit k (xs @ (k, c) # ys, fx)"
  obtain m' fx' where st: "?st = (m', fx')" by (cases ?st)
  show ?case
  proof (cases "survives (k, c)")
    case True
    then have "fst ?st = (xs @ [(k, c\<lparr>isAlive := False\<rparr>)]) @ ys"
      using k by (simp add: survives_def sweep_visit_ping_ok)
    with st have m': "m' = (xs @ [(k, c\<lparr>isAlive := False\<rparr>)]) @ ys" by simp
    have "fst (fold sweep_visit (map fst ys) (m', fx')) =
        (xs @ [(k, c\<lparr>isAlive := False\<rparr>)]) @ swept ys"
      unfolding m' by (rule Cons.IH [OF d'])
    with True p st show ?thesis by (simp add: swept_def flag_cleared_def)
  next
    case False
    then have "fst ?st = xs @ ys"
      using k by (cases "isAlive c") (simp_all add: survives_def sweep_visit_dead
          sweep_visit_ping_throws)
    with st have m': "m' = xs @ ys" by simp
    have "fst (fold sweep_visit (map fst ys) (m', fx')) = xs @ swept ys"
      unfolding m' by (rule Cons.IH [OF d])
    with False p st show ?thesis by (simp add: swept_def)
  qed
qed

lemma fst_pingInterval: "distinct (map fst m) \<Longrightarrow> fst (pingInterval m) = swept m"
  using fold_sweep_visit [of "[]" m "[]"] by (simp add: pingInterval_def)

lemma keys_swept: "map fst (swept m) = map fst (filter survives m)"
  by (simp add: swept_def flag_cleared_def comp_def)

lemma distinct_swept: "distinct (map fst m) \<Longrightarrow> distinct (map fst (swept m))"
  by (simp add: keys_swept distinct_map_filter)

lemma map_of_swept:
  "distinct (map fst m) \<Longrightarrow>
   map_of (swept m) k =
     (case map_of m k of
        None \<Rightarrow> None
      | Some c \<Rightarrow> if survives (k, c) then Some (c\<lparr>isAlive := False\<rparr>) else None)"
proof (induction m)
  case Nil
  then show ?case by (simp add: swept_def)
next
  case (Cons p m)
  obtain k' c' where p: "p = (k', c')" by (cases p)
  from Cons.prems p have notin: "k' \<notin> fst ` set m" and d: "distinct (map fst m)" by auto
  from notin have none: "map_of m k' = None" by (simp add: map_of_eq_None_iff)
  have sw: "swept ((k', c') # m) =
      (if survives (k', c') then flag_cleared (k', c') # swept m else swept m)"
    by (simp add: swept_def)
  show ?case
  proof (cases "k = k'")
    case True
    with none Cons.IH [OF d] have "map_of (swept m) k' = None" by simp
    with True p show ?thesis by (simp add: sw flag_cleared_def)
  next
    case False
    with p Cons.IH [OF d] show ?thesis by (simp add: sw flag_cleared_def)
  qed
qed

lemma distinct_pong: "distinct (map fst m) \<Longrightarrow> distinct (map fst (pong cid now m))"
  by (simp add: pong_def distinct_map_set split: option.splits)

lemma map_of_pong:
  "map_of (pong cid now m) k =
     (if k = cid then map_option (\<lambda>c. c\<lparr>isAlive := True, lastPing := now\<rparr>) (map_of m cid)
      else map_of m k)"
  by (simp add: pong_def map_of_map_set split: option.splits)

lemma distinct_step: "distinct (map fst m) \<Longrightarrow> distinct (map fst (step e m))"
  by (cases e) (simp_all add: fst_pingInterval distinct_swept distinct_pong)


lemma map_of_step_Sweep:
  "distinct (map fst m) \<Longrightarrow>
   map_of (step Sweep m) k =
     (case map_of m k of
        None \<Rightarrow> None
      | Some c \<Rightarrow> if survives (k, c) then Some (c\<lparr>isAlive := False\<rparr>) else None)"
  by (simp add: fst_pingInterval map_of_swept)

lemma map_of_step_Pong:
  "map_of (step (Pong c0 now) m) k =
     (if k = c0 then map_option (\<lambda>c. c\<lparr>isAlive := True, lastPing := now\<rparr>) (map_of m c0)
      else map_of m k)"
  by (simp add: map_of_pong)

declare step.simps [simp del]

lemma run_Nil: "run [] m = m"
  by (simp add: run_def)

lemma run_Cons: "run (e # evs) m = run evs (step e m)"
  by (simp add: run_def)

lemma absent_stays_absent:
  "distinct (map fst m) \<Longrightarrow> map_of m cid = None \<Longrightarrow> map_of (run evs m) cid = None"
proof (induction evs arbitrary: m)
  case Nil
  then show ?case by (simp add: run_Nil)
next
  case (Cons e evs)
  have "map_of (step e m) cid = None"
  proof (cases e)
    case Sweep
    with Cons.prems show ?thesis by (simp only: map_of_step_Sweep) simp
  next
    case (Pong c now)
    with Cons.prems show ?thesis by (auto simp: map_of_step_Pong)
  qed
  with Cons.prems(1) show ?case
    by (simp add: run_Cons Cons.IH distinct_step)
qed

lemma second_strike:
  assumes "distinct (map fst m)" and "\<forall>c. map_of m cid = Some c \<longrightarrow> \<not> isAlive c"
    and "\<forall>e\<in>set evs. \<not> is_pong_of cid e" and "Sweep \<in> set evs"
  shows "map_of (run evs m) cid = None"
  using assms
proof (induction evs arbitrary: m)
  case Nil
  then show ?case by simp
next
  case (Cons e evs)
  show ?case
  proof (cases e)
    case Sweep
    from Cons.prems(1,2) have "map_of (step Sweep m) cid = None"
      by (simp only: map_of_step_Sweep) (simp add: survives_def split: option.splits)
    with Cons.prems(1) Sweep show ?thesis
      by (simp add: run_Cons absent_stays_absent distinct_step)
  next
    case (Pong c now)
    with Cons.prems(3) have ne: "c \<noteq> cid" by simp
    with Pong have same: "map_of (step e m) cid = map_of m cid"
      by (simp add: map_of_step_Pong)
    from Pong Cons.prems(4) have sw: "Sweep \<in> set evs" by simp
    have "map_of (run evs (step e m)) cid = None"
    proof (rule Cons.IH)
      show "distinct (map fst (step e m))" using Cons.prems(1) by (rule distinct_step)
      show "\<forall>c. map_of (step e m) cid = Some c \<longrightarrow> \<not> isAlive c"
        using Cons.prems(2) by (simp add: same)
      show "\<forall>e\<in>set evs. \<not> is_pong_of cid e" using Cons.prems(3) by simp
      show "Sweep \<in> set evs" by (rule sw)
    qed
    then show ?thesis by (simp add: run_Cons)
  qed
qed

lemma two_strikes:
  assumes "distinct (map fst m)" and "\<forall>e\<in>set evs. \<not> is_pong_of cid e"
    and "2 \<le> count_list evs Sweep"
  shows "map_of (run evs m) cid = None"
  using assms
proof (induction evs arbitrary: m)
  case Nil
  then show ?case by simp
next
  case (Cons e evs)
  show ?case
  proof (cases e)
    case Sweep
    with Cons.prems(3) have "count_list evs Sweep \<noteq> 0" by simp
    then have sw: "Sweep \<in> set evs" by (simp add: count_list_0_iff)
    have "map_of (run evs (step Sweep m)) cid = None"
    proof (rule second_strike)
      show "distinct (map fst (step Sweep m))" using Cons.prems(1) by (rule distinct_step)
      show "\<forall>c. map_of (step Sweep m) cid = Some c \<longrightarrow> \<not> isAlive c"
        using Cons.prems(1)
        by (simp only: map_of_step_Sweep) (auto split: option.splits if_splits)
      show "\<forall>e\<in>set evs. \<not> is_pong_of cid e" using Cons.prems(2) by simp
      show "Sweep \<in> set evs" by (rule sw)
    qed
    with Sweep show ?thesis by (simp add: run_Cons)
  next
    case (Pong c now)
    have "map_of (run evs (step e m)) cid = None"
    proof (rule Cons.IH)
      show "distinct (map fst (step e m))" using Cons.prems(1) by (rule distinct_step)
      show "\<forall>e\<in>set evs. \<not> is_pong_of cid e" using Cons.prems(2) by simp
      show "2 \<le> count_list evs Sweep" using Cons.prems(3) Pong by simp
    qed
    then show ?thesis by (simp add: run_Cons)
  qed
qed

lemma acknowledged_survives:
  assumes "distinct (map fst m)" and "map_of m cid = Some c" and "\<not> pingThrows (ws c)"
    and "acked \<longrightarrow> isAlive c" and "acks_every_cycle cid acked evs"
  shows "\<exists>c'. map_of (run evs m) cid = Some c' \<and> ws c' = ws c"
  using assms
proof (induction evs arbitrary: m c acked)
  case Nil
  then show ?case by (simp add: run_Nil)
next
  case (Cons e evs)
  show ?case
  proof (cases e)
    case Sweep
    with Cons.prems(4,5) have alive: "isAlive c" and rest: "acks_every_cycle cid False evs"
      by simp_all
    from Cons.prems(1,2,3) alive
    have after: "map_of (step Sweep m) cid = Some (c\<lparr>isAlive := False\<rparr>)"
      by (simp only: map_of_step_Sweep) (simp add: survives_def)
    have "\<exists>c'. map_of (run evs (step Sweep m)) cid = Some c' \<and>
        ws c' = ws (c\<lparr>isAlive := False\<rparr>)"
    proof (rule Cons.IH)
      show "distinct (map fst (step Sweep m))" using Cons.prems(1) by (rule distinct_step)
      show "map_of (step Sweep m) cid = Some (c\<lparr>isAlive := False\<rparr>)" by (rule after)
      show "\<not> pingThrows (ws (c\<lparr>isAlive := False\<rparr>))" using Cons.prems(3) by simp
      show "False \<longrightarrow> isAlive (c\<lparr>isAlive := False\<rparr>)" by simp
      show "acks_every_cycle cid False evs" by (rule rest)
    qed
    with Sweep show ?thesis by (simp add: run_Cons)
  next
    case (Pong c0 now)
    let ?c = "if c0 = cid then c\<lparr>isAlive := True, lastPing := now\<rparr> else c"
    from Cons.prems(2) Pong have after: "map_of (step e m) cid = Some ?c"
      by (auto simp: map_of_step_Pong)
    have "\<exists>c'. map_of (run evs (step e m)) cid = Some c' \<and> ws c' = ws ?c"
    proof (rule Cons.IH)
      show "distinct (map fst (step e m))" using Cons.prems(1) by (rule distinct_step)
      show "map_of (step e m) cid = Some ?c" by (rule after)
      show "\<not> pingThrows (ws ?c)" using Cons.prems(3) by simp
      show "(acked \<or> c0 = cid) \<longrightarrow> isAlive ?c" using Cons.prems(4) by simp
      show "acks_every_cycle cid (acked \<or> c0 = cid) evs" using Cons.prems(5) Pong by simp
    qed
    moreover have "ws ?c = ws c" by simp
    ultimately show ?thesis by (simp only: run_Cons)
  qed
qed

lemma failed_probe_evicts:
  assumes "distinct (map fst m)" and "map_of m cid = Some c" and "pingThrows (ws c)"
  shows "map_of (fst (pingInterval m)) cid = None"
  using assms by (simp add: fst_pingInterval map_of_swept survives_def)

text \<open>
  C4. Sweep cycles and acknowledgments are the events of \<^const>\<open>run\<close>.
  \<^item> A connection for which no acknowledgment arrives is absent from the registry
    once two sweeps have run, in whatever state it was before the first.
  \<^item> A connection whose probes are sent without failure and which acknowledges
    between every two consecutive sweeps stays in the registry, with its transport:
    \<open>isAlive c\<close> says whether its acknowledgment is in when the schedule starts, as it
    is for a new connection.
  \<^item> A connection whose probe send fails is absent after that very sweep.
\<close>

theorem two_strike_eviction:
  "(distinct (map fst m) \<and> (\<forall>e\<in>set evs. \<not> is_pong_of cid e) \<and> 2 \<le> count_list evs Sweep \<longrightarrow>
      map_of (run evs m) cid = None) \<and>
   (distinct (map fst m) \<and> map_of m cid = Some c \<and> \<not> pingThrows (ws c) \<and>
    acks_every_cycle cid (isAlive c) evs \<longrightarrow>
      (\<exists>c'. map_of (run evs m) cid = Some c' \<and> ws c' = ws c)) \<and>
   (distinct (map fst m) \<and> map_of m cid = Some c \<and> pingThrows (ws c) \<longrightarrow>
      map_of (fst (pingInterval m)) cid = None)"
proof (intro conjI impI)
  assume "distinct (map fst m) \<and> (\<forall>e\<in>set evs. \<not> is_pong_of cid e) \<and> 2 \<le> count_list evs Sweep"
  then show "map_of (run evs m) cid = None" by (simp add: two_strikes)
next
  assume h: "distinct (map fst m) \<and> map_of m cid = Some c \<and> \<not> pingThrows (ws c) \<and>
    acks_every_cycle cid (isAlive c) evs"
  show "\<exists>c'. map_of (run evs m) cid = Some c' \<and> ws c' = ws c"
    by (rule acknowledged_survives [of m cid c "isAlive c" evs]) (simp_all add: h)
next
  assume "distinct (map fst m) \<and> map_of m cid = Some c \<and> pingThrows (ws c)"
  then show "map_of (fst (pingInterval m)) cid = None" by (simp add: failed_probe_evicts)
qed

theorem two_strike_eviction_witness:
  "distinct (map fst three_clients) \<and>
   filter (is_pong_of ''k3x9q2'') example_schedule = [] \<and>
   2 \<le> count_list example_schedule Sweep \<and>
   map_of (run example_schedule three_clients) ''k3x9q2'' = None \<and>
   map_of three_clients ''m81c5d'' =
     Some \<lparr>ws = open_socket, connectedAt = 30, lastPing = 31, isAlive = True\<rparr> \<and>
   \<not> pingThrows open_socket \<and>
   acks_every_cycle ''m81c5d'' True example_schedule \<and>
   (\<exists>c'. map_of (run example_schedule three_clients) ''m81c5d'' = Some c' \<and>
      ws c' = open_socket) \<and>
   map_of three_clients ''p0w4tz'' =
     Some \<lparr>ws = broken_socket, connectedAt = 20, lastPing = 21, isAlive = True\<rparr> \<and>
   pingThrows broken_socket \<and>
   map_of (fst (pingInterval three_clients)) ''p0w4tz'' = None"
proof -
  have d: "distinct (map fst three_clients)"
    by (simp add: three_clients_def one_client_def connection_def)
  have a1: "\<forall>e\<in>set example_schedule. \<not> is_pong_of ''k3x9q2'' e"
    by (simp add: example_schedule_def)
  have a2: "2 \<le> count_list example_schedule Sweep"
    by (simp add: example_schedule_def)
  have b1: "map_of three_clients ''m81c5d'' =
     Some \<lparr>ws = open_socket, connectedAt = 30, lastPing = 31, isAlive = True\<rparr>"
    by (simp add: three_clients_def one_client_def connection_def)
  have b2: "\<not> pingThrows open_socket" by (simp add: open_socket_def)
  have b3: "acks_every_cycle ''m81c5d'' True example_schedule"
    by (simp add: example_schedule_def)
  have c1: "map_of three_clients ''p0w4tz'' =
     Some \<lparr>ws = broken_socket, connectedAt = 20, lastPing = 21, isAlive = True\<rparr>"
    by (simp add: three_clients_def one_client_def connection_def)
  have c2: "pingThrows broken_socket" by (simp add: broken_socket_def)
  from two_strike_eviction [of three_clients example_schedule "''k3x9q2''"]
    two_strike_eviction [of three_clients example_schedule "''m81c5d''"
      "\<lparr>ws = open_socket, connectedAt = 30, lastPing = 31, isAlive = True\<rparr>"]
    two_strike_eviction [of three_clients example_schedule "''p0w4tz''"
      "\<lparr>ws = broken_socket, connectedAt = 20, lastPing = 21, isAlive = True\<rparr>"]
    d a1 a2 b1 b2 b3 c1 c2
  show ?thesis by (simp add: example_schedule_def)
qed

lemma example_run:
  "run example_schedule three_clients =
    [(''m81c5d'', \<lparr>ws = open_socket, connectedAt = 30, lastPing = 50, isAlive = False\<rparr>)]"
  by (simp add: example_schedule_def three_clients_def one_client_def connection_def run_def
    step.simps pingInterval_def sweep_visit_def cleanupClient_def pong_def ws_ping_def
    ws_terminate_def open_socket_def broken_socket_def)

end
